theory Spec2Isabelle
  imports
    Complex_Main
    "HOL-Library.Char_ord"
    "HOL-Library.List_Lexorder"
    "HOL-Library.Option_ord"
begin

section \<open>The host: clock and calendar of the JavaScript runtime\<close>

text \<open>
  The analytics loader (\<^verbatim>\<open>app/routes/app.analytics.tsx\<close>) reads the clock twice
  (\<^verbatim>\<open>const now = new Date(); let startDate = new Date();\<close>) and moves the second
  reading back with \<^verbatim>\<open>setDate\<close> or \<^verbatim>\<open>setMonth\<close>. A \<^verbatim>\<open>Date\<close> is its time value:
  milliseconds since 1970-01-01T00:00:00Z, an integer. The calendar functions below are
  the abstract operations of the ECMAScript language specification (section
  "Date Objects"), under their names there; \<open>div\<close> and \<open>mod\<close> on \<open>int\<close> are the
  specification's \<open>floor(x / y)\<close> and \<open>x modulo y\<close>. The range check \<open>TimeClip\<close> is left
  out: it is the identity on every time value within 10^8 days of the epoch.
\<close>

definition msPerDay :: int where
  "msPerDay = 86400000"

definition Day :: "int \<Rightarrow> int" where
  "Day t = t div msPerDay"

definition TimeWithinDay :: "int \<Rightarrow> int" where
  "TimeWithinDay t = t mod msPerDay"

definition DaysInYear :: "int \<Rightarrow> int" where
  "DaysInYear y =
     (if y mod 4 \<noteq> 0 then 365
      else if y mod 100 \<noteq> 0 then 366
      else if y mod 400 \<noteq> 0 then 365
      else 366)"

definition DayFromYear :: "int \<Rightarrow> int" where
  "DayFromYear y =
     365 * (y - 1970) + (y - 1969) div 4 - (y - 1901) div 100 + (y - 1601) div 400"

text \<open>One year on, the day number grows by the length of the year.\<close>

lemma div_succ:
  fixes a k :: int
  assumes k: "0 < k"
  shows "(a + 1) div k = (if (a + 1) mod k = 0 then a div k + 1 else a div k)"
proof -
  have m: "0 \<le> a mod k" "a mod k < k" using k by simp_all
  have e: "a = k * (a div k) + a mod k" by simp
  show ?thesis
  proof (cases "a mod k + 1 = k")
    case True
    have "a + 1 = k * (a div k) + (a mod k + 1)" by simp
    also have "\<dots> = k * (a div k + 1) + 0" using True by (simp add: distrib_left)
    finally have "a + 1 = k * (a div k + 1) + 0" .
    from int_div_pos_eq [OF this _ k] int_mod_pos_eq [OF this _ k]
    show ?thesis by simp
  next
    case False
    then have lt: "a mod k + 1 < k" using m by linarith
    have "a + 1 = k * (a div k) + (a mod k + 1)" by simp
    from int_div_pos_eq [OF this _ lt] int_mod_pos_eq [OF this _ lt]
    show ?thesis using m by simp
  qed
qed

lemma DayFromYear_step: "DayFromYear (y + 1) = DayFromYear y + DaysInYear y"
proof -
  have d4: "(y - 1968) mod 4 = 0 \<longleftrightarrow> y mod 4 = 0"
    by (simp add: mod_eq_0_iff_dvd dvd_diff_left_iff)
  have d100: "(y - 1900) mod 100 = 0 \<longleftrightarrow> y mod 100 = 0"
    by (simp add: mod_eq_0_iff_dvd dvd_diff_left_iff)
  have d400: "(y - 1600) mod 400 = 0 \<longleftrightarrow> y mod 400 = 0"
    by (simp add: mod_eq_0_iff_dvd dvd_diff_left_iff)
  have s4: "(y + 1 - 1969) div 4 = (y - 1969) div 4 + (if y mod 4 = 0 then 1 else 0)"
    using div_succ [of 4 "y - 1969"] d4 by simp
  have s100: "(y + 1 - 1901) div 100 = (y - 1901) div 100 + (if y mod 100 = 0 then 1 else 0)"
    using div_succ [of 100 "y - 1901"] d100 by simp
  have s400: "(y + 1 - 1601) div 400 = (y - 1601) div 400 + (if y mod 400 = 0 then 1 else 0)"
    using div_succ [of 400 "y - 1601"] d400 by simp
  have "(4::int) dvd 100" and "(100::int) dvd 400" by simp_all
  then have i1: "y mod 100 = 0 \<Longrightarrow> y mod 4 = 0" and i2: "y mod 400 = 0 \<Longrightarrow> y mod 100 = 0"
    by (metis mod_mod_cancel mod_0)+
  show ?thesis
    unfolding DayFromYear_def DaysInYear_def s4 s100 s400 using i1 i2 by auto
qed

lemma DaysInYear_bounds: "365 \<le> DaysInYear y" "DaysInYear y \<le> 366"
  by (simp_all add: DaysInYear_def)

text \<open>
  \<open>YearFromTime t\<close> is "the largest integer \<open>y\<close> such that \<open>TimeFromYear y \<le> t\<close>".
  It is computed by a search upwards from a year that is not too late: a year has at
  most 366 days and at least 365, so year \<open>1970 + d div 366\<close> (for a day number
  \<open>d \<ge> 0\<close>; \<open>1970 + d div 365\<close> for \<open>d < 0\<close>) starts on or before day \<open>d\<close>.
  Lemma \<open>YearFromDay_largest\<close> below proves that the search returns the year of
  the specification.
\<close>

function year_from :: "int \<Rightarrow> int \<Rightarrow> int" where
  "year_from y d = (if DayFromYear (y + 1) \<le> d then year_from (y + 1) d else y)"
  by pat_completeness auto
termination
proof (relation "measure (\<lambda>(y, d). nat (d - DayFromYear y))")
  show "wf (measure (\<lambda>(y, d). nat (d - DayFromYear y)))"
    by simp
next
  fix y d :: int
  assume le: "DayFromYear (y + 1) \<le> d"
  have "DayFromYear y < DayFromYear (y + 1)"
    using DaysInYear_bounds(1) [of y] by (simp add: DayFromYear_step)
  with le show "((y + 1, d), (y, d)) \<in> measure (\<lambda>(y, d). nat (d - DayFromYear y))"
    by simp
qed

declare year_from.simps [simp del]

definition YearFromDay :: "int \<Rightarrow> int" where
  "YearFromDay d = year_from (1970 + (if 0 \<le> d then d div 366 else d div 365)) d"

definition YearFromTime :: "int \<Rightarrow> int" where
  "YearFromTime t = YearFromDay (Day t)"

definition InLeapYear :: "int \<Rightarrow> int" where
  "InLeapYear t = (if DaysInYear (YearFromTime t) = 365 then 0 else 1)"

definition DayWithinYear :: "int \<Rightarrow> int" where
  "DayWithinYear t = Day t - DayFromYear (YearFromTime t)"

definition MonthFromTime :: "int \<Rightarrow> int" where
  "MonthFromTime t =
     (let d = DayWithinYear t; l = InLeapYear t in
      if d < 31 then 0
      else if d < 59 + l then 1
      else if d < 90 + l then 2
      else if d < 120 + l then 3
      else if d < 151 + l then 4
      else if d < 181 + l then 5
      else if d < 212 + l then 6
      else if d < 243 + l then 7
      else if d < 273 + l then 8
      else if d < 304 + l then 9
      else if d < 334 + l then 10
      else 11)"

definition DateFromTime :: "int \<Rightarrow> int" where
  "DateFromTime t =
     (let d = DayWithinYear t; l = InLeapYear t; m = MonthFromTime t in
      if m = 0 then d + 1
      else if m = 1 then d - 30
      else if m = 2 then d - 58 - l
      else if m = 3 then d - 89 - l
      else if m = 4 then d - 119 - l
      else if m = 5 then d - 150 - l
      else if m = 6 then d - 180 - l
      else if m = 7 then d - 211 - l
      else if m = 8 then d - 242 - l
      else if m = 9 then d - 272 - l
      else if m = 10 then d - 303 - l
      else d - 333 - l)"

text \<open>
  \<open>MakeDay year month date\<close>: the month may lie outside \<open>0..11\<close> and the date outside
  the month; both carry over. The specification asks for the day number of the first
  day of month \<open>month mod 12\<close> of year \<open>year + month div 12\<close>, plus \<open>date - 1\<close>.
  \<open>DayFromMonth\<close> is the day within the year on which a month starts (the thresholds of
  \<open>MonthFromTime\<close>).
\<close>

definition DayFromMonth :: "int \<Rightarrow> int \<Rightarrow> int" where
  "DayFromMonth mn l =
     (if mn = 0 then 0
      else if mn = 1 then 31
      else if mn = 2 then 59 + l
      else if mn = 3 then 90 + l
      else if mn = 4 then 120 + l
      else if mn = 5 then 151 + l
      else if mn = 6 then 181 + l
      else if mn = 7 then 212 + l
      else if mn = 8 then 243 + l
      else if mn = 9 then 273 + l
      else if mn = 10 then 304 + l
      else 334 + l)"

definition MakeDay :: "int \<Rightarrow> int \<Rightarrow> int \<Rightarrow> int" where
  "MakeDay year month date =
     (let ym = year + month div 12; mn = month mod 12;
          l = (if DaysInYear ym = 365 then 0 else 1)
      in DayFromYear ym + DayFromMonth mn l + date - 1)"

definition MakeDate :: "int \<Rightarrow> int \<Rightarrow> int" where
  "MakeDate day time = day * msPerDay + time"

text \<open>
  The host of one request: the two clock readings of the loader and the time zone of
  the process. \<open>LocalTZA t isUTC\<close> is the specification's offset of local time from
  UTC in milliseconds, at the UTC instant \<open>t\<close> (\<open>isUTC\<close>) or at the local time \<open>t\<close>;
  it is implementation-defined, so it is a field of the host.
\<close>

record host =
  clock_now :: int
  clock_startDate :: int
  LocalTZA :: "int \<Rightarrow> bool \<Rightarrow> int"

definition LocalTime :: "host \<Rightarrow> int \<Rightarrow> int" where
  "LocalTime h t = t + LocalTZA h t True"

definition UTC :: "host \<Rightarrow> int \<Rightarrow> int" where
  "UTC h t = t - LocalTZA h t False"

text \<open>\<^verbatim>\<open>Date.prototype.getDate\<close>, \<^verbatim>\<open>getMonth\<close>, \<^verbatim>\<open>setDate\<close> and \<^verbatim>\<open>setMonth\<close> (with one
  argument), on the time value \<open>tv\<close> of the receiver; the setters return the new time
  value.\<close>

definition getDate :: "host \<Rightarrow> int \<Rightarrow> int" where
  "getDate h tv = DateFromTime (LocalTime h tv)"

definition getMonth :: "host \<Rightarrow> int \<Rightarrow> int" where
  "getMonth h tv = MonthFromTime (LocalTime h tv)"

definition setDate :: "host \<Rightarrow> int \<Rightarrow> int \<Rightarrow> int" where
  "setDate h tv dt =
     (let t = LocalTime h tv;
          newDate = MakeDate (MakeDay (YearFromTime t) (MonthFromTime t) dt) (TimeWithinDay t)
      in UTC h newDate)"

definition setMonth :: "host \<Rightarrow> int \<Rightarrow> int \<Rightarrow> int" where
  "setMonth h tv m =
     (let t = LocalTime h tv;
          newDate = MakeDate (MakeDay (YearFromTime t) m (DateFromTime t)) (TimeWithinDay t)
      in UTC h newDate)"

section \<open>The store and its queries\<close>

text \<open>
  The tables the two loaders read, as the source uses them (the rows' fields are the
  ones named in the queries). Timestamps are time values in milliseconds, like the
  clock's. The store is reached through Prisma; what a query returns is modelled on
  the rows of one table: one state of the store answers all queries of a request.
\<close>

record NotFoundError =
  shopDomain :: string
  path :: string
  referer :: "string option"
  timestamp :: int
  redirected :: bool

record Redirect =
  redirect_shopDomain :: string
  createdAt :: int

record ThemeStatus =
  status_shopDomain :: string
  themeId :: string
  status_isActive :: bool

record db =
  notFoundError :: "NotFoundError list"
  redirect :: "Redirect list"
  themeStatus :: "ThemeStatus list"

text \<open>
  \<^verbatim>\<open>groupBy({by: [k], where, _count: true, orderBy: {k: order}, take})\<close>: the rows that
  satisfy \<open>where\<close> are grouped by the value of the column \<open>k\<close>; every group yields one
  result \<open>(value of k, number of rows)\<close>; the results are ordered by the value of \<open>k\<close>,
  ascending or descending, and \<open>take\<close>, when given, keeps the first so many.
  \<^verbatim>\<open>count({where})\<close> is the number of rows that satisfy \<open>where\<close>. The order of the
  store on a column is taken to be the linear order of the column's type: integers by
  value, strings character by character, and null (\<open>None\<close>) below every string, as
  SQLite has it. The source leaves the order to the database behind Prisma: one
  with another collation, or with null above every string as PostgreSQL has it,
  lists the groups in its own order, and the group of the null referer then comes
  first under \<open>desc\<close>, not last.
\<close>

datatype sortOrder = asc | desc

definition groupBy ::
  "('r \<Rightarrow> 'k::linorder) \<Rightarrow> ('r \<Rightarrow> bool) \<Rightarrow> sortOrder \<Rightarrow> nat option \<Rightarrow> 'r list \<Rightarrow> ('k \<times> nat) list"
where
  "groupBy key wh orderBy tk rows =
     (let sel = filter wh rows;
          keys = sort (remdups (map key sel));
          groups = map (\<lambda>k. (k, length (filter (\<lambda>r. key r = k) sel))) keys;
          ordered = (case orderBy of asc \<Rightarrow> groups | desc \<Rightarrow> rev groups)
      in case tk of None \<Rightarrow> ordered | Some n \<Rightarrow> take n ordered)"

definition count :: "('r \<Rightarrow> bool) \<Rightarrow> 'r list \<Rightarrow> nat" where
  "count wh rows = length (filter wh rows)"

text \<open>The five queries of the analytics loader, in the order of the source
  (lines 64-77, 80-95, 98-105, 108-116, 119-134), each with its own \<open>where\<close>.\<close>

definition errors_query :: "db \<Rightarrow> string \<Rightarrow> int \<Rightarrow> int \<Rightarrow> (int \<times> nat) list" where
  "errors_query d shop startDate now =
     groupBy timestamp
       (\<lambda>r. shopDomain r = shop \<and> startDate \<le> timestamp r \<and> timestamp r \<le> now)
       asc None (notFoundError d)"

definition topPaths_query :: "db \<Rightarrow> string \<Rightarrow> int \<Rightarrow> (string \<times> nat) list" where
  "topPaths_query d shop startDate =
     groupBy path
       (\<lambda>r. shopDomain r = shop \<and> startDate \<le> timestamp r)
       desc (Some 5) (notFoundError d)"

definition totalRedirects_query :: "db \<Rightarrow> string \<Rightarrow> int \<Rightarrow> nat" where
  "totalRedirects_query d shop startDate =
     count (\<lambda>r. redirect_shopDomain r = shop \<and> startDate \<le> createdAt r) (redirect d)"

definition unfixedErrors_query :: "db \<Rightarrow> string \<Rightarrow> int \<Rightarrow> nat" where
  "unfixedErrors_query d shop startDate =
     count (\<lambda>r. shopDomain r = shop \<and> redirected r = False \<and> startDate \<le> timestamp r)
       (notFoundError d)"

definition topReferrers_query :: "db \<Rightarrow> string \<Rightarrow> int \<Rightarrow> (string option \<times> nat) list" where
  "topReferrers_query d shop startDate =
     groupBy referer
       (\<lambda>r. shopDomain r = shop \<and> startDate \<le> timestamp r)
       desc (Some 3) (notFoundError d)"

text \<open>
  A query can fail. What happens to the five promises of one request is a fact of the
  store and the network: which of them reject and with what reason (\<open>failure\<close>), and
  the time at which each settles (\<open>settled\<close>). \<^verbatim>\<open>Promise.all\<close> rejects with the reason of
  the promise that rejects first, and fulfils with all five values when none rejects.
\<close>

datatype query = ErrorsOverTime | TopPaths | TotalRedirects | UnfixedErrors | TopReferrers

datatype db_error = PrismaError string

record outcomes =
  failure :: "query \<Rightarrow> db_error option"
  settled :: "query \<Rightarrow> nat"

definition all_queries :: "query list" where
  "all_queries = [ErrorsOverTime, TopPaths, TotalRedirects, UnfixedErrors, TopReferrers]"

definition first_rejection :: "outcomes \<Rightarrow> db_error option" where
  "first_rejection oc =
     (case sort_key (settled oc) (filter (\<lambda>q. failure oc q \<noteq> None) all_queries) of
        [] \<Rightarrow> None
      | q # _ \<Rightarrow> failure oc q)"

section \<open>The analytics loader\<close>

text \<open>
  \<^verbatim>\<open>const range = (url.searchParams.get("range") as TimeRange) || "week"\<close>: the
  parameter is absent (\<open>None\<close>) or any string; the cast checks nothing; an absent or
  empty parameter becomes \<^verbatim>\<open>"week"\<close>.
\<close>

definition range_of :: "string option \<Rightarrow> string" where
  "range_of param = (case param of None \<Rightarrow> ''week'' | Some s \<Rightarrow> if s = [] then ''week'' else s)"

text \<open>The \<^verbatim>\<open>switch\<close> of lines 51-60 on the second clock reading.\<close>

definition startDate_of :: "host \<Rightarrow> string \<Rightarrow> int" where
  "startDate_of h rng =
     (if rng = ''day'' then setDate h (clock_startDate h) (getDate h (clock_now h) - 1)
      else if rng = ''month'' then setMonth h (clock_startDate h) (getMonth h (clock_now h) - 1)
      else setDate h (clock_startDate h) (getDate h (clock_now h) - 7))"

text \<open>
  \<^verbatim>\<open>Math.round\<close> returns the integer closest to its argument, the greater one of two
  equally close. The quotient is taken in the reals: for a count below 2^53 and a
  divisor 1, 7 or 30 the double-precision quotient rounds to the same integer.
\<close>

definition Math_round :: "real \<Rightarrow> int" where
  "Math_round x = \<lfloor>x + 1 / 2\<rfloor>"

definition divisor_of :: "string \<Rightarrow> int" where
  "divisor_of rng = (if rng = ''day'' then 1 else if rng = ''week'' then 7 else 30)"

text \<open>
  The response of the loader, with the fields of \<^verbatim>\<open>additionalMetrics\<close> beside the
  others. The field \<^verbatim>\<open>range\<close> is \<open>range'\<close> here and the field \<^verbatim>\<open>id\<close> of a theme is
  \<open>id'\<close>, \<open>range\<close> and \<open>id\<close> being constants of HOL. An element \<^verbatim>\<open>{timestamp, _count}\<close>
  of a grouped result is the pair of the key and the count.
\<close>

record snapshot =
  errors :: "(int \<times> nat) list"
  topPaths :: "(string \<times> nat) list"
  range' :: string
  totalRedirects :: nat
  totalErrors :: nat
  avgDaily :: int
  unfixedErrors :: nat
  topReferrers :: "(string option \<times> nat) list"

text \<open>
  The loader, lines 43-152: \<open>h\<close> is the host of the request, \<open>oc\<close> what becomes of
  the five promises, \<open>d\<close> the tables, \<open>shop\<close> the \<^verbatim>\<open>session.shop\<close> of the
  authenticated session and \<open>param\<close> the search parameter \<^verbatim>\<open>range\<close> of the URL. The
  result is the rejection that \<^verbatim>\<open>await Promise.all\<close> throws, or the response.
\<close>

definition loader :: "host \<Rightarrow> outcomes \<Rightarrow> db \<Rightarrow> string \<Rightarrow> string option \<Rightarrow> db_error + snapshot" where
  "loader h oc d shop param =
     (let rng = range_of param;
          now = clock_now h;
          startDate = startDate_of h rng
      in case first_rejection oc of
           Some e \<Rightarrow> Inl e
         | None \<Rightarrow>
             (let es = errors_query d shop startDate now;
                  total = foldl (\<lambda>sum error. sum + snd error) 0 es;
                  avg = Math_round (real total / real_of_int (divisor_of rng))
              in Inr \<lparr>errors = es,
                      topPaths = topPaths_query d shop startDate,
                      range' = rng,
                      totalRedirects = totalRedirects_query d shop startDate,
                      totalErrors = total,
                      avgDaily = avg,
                      unfixedErrors = unfixedErrors_query d shop startDate,
                      topReferrers = topReferrers_query d shop startDate\<rparr>))"

section \<open>The theme loader\<close>

text \<open>
  \<^verbatim>\<open>app/routes/app._index.tsx\<close>, lines 49-63: the status rows of the shop are put in a
  \<^verbatim>\<open>Map\<close> from \<open>themeId\<close> to \<open>isActive\<close> (a later row with the same key replaces an
  earlier one), and every theme node fetched from the platform is copied with a field
  \<open>isActive\<close> added: \<^verbatim>\<open>statusMap.get(theme.id) || false\<close>.
\<close>

record ThemeNode =
  id' :: string
  name :: string
  role :: string

record Theme = ThemeNode +
  isActive :: bool

definition statusMap :: "ThemeStatus list \<Rightarrow> (string \<rightharpoonup> bool)" where
  "statusMap themeStatuses =
     foldl (\<lambda>m status. m(themeId status \<mapsto> status_isActive status)) Map.empty themeStatuses"

definition themes :: "db \<Rightarrow> string \<Rightarrow> ThemeNode list \<Rightarrow> Theme list" where
  "themes d shop nodes =
     (let themeStatuses = filter (\<lambda>status. status_shopDomain status = shop) (themeStatus d);
          sm = statusMap themeStatuses
      in map (\<lambda>theme. ThemeNode.extend theme
                (Theme.fields (case sm (id' theme) of None \<Rightarrow> False | Some b \<Rightarrow> b \<or> False)))
           nodes)"

section \<open>Example inputs\<close>

text \<open>
  A host in UTC whose two clock readings are both 2023-03-15T12:00:00.000Z, a store
  whose queries all succeed and one whose second query fails, and a few tables. They
  are the concrete inputs at which the theorems below are instantiated.
\<close>

definition ex_host :: host where
  "ex_host = \<lparr>clock_now = 1678881600000, clock_startDate = 1678881600000,
              LocalTZA = (\<lambda>t isUTC. 0)\<rparr>"

text \<open>A host in a zone that is one hour ahead of UTC until 2023-03-26T01:00:00Z and
  two hours from then on, at 2023-03-26T12:00:00Z (a local time of the hour skipped by
  the change is read with the offset before the change); a host in UTC whose clock
  ticks between the two readings; and one whose clock ticks from the last millisecond
  of January 2023 to the first of February between them.\<close>

definition dst_host :: host where
  "dst_host =
     \<lparr>clock_now = 1679832000000, clock_startDate = 1679832000000,
      LocalTZA = (\<lambda>t isUTC.
         if isUTC then (if t < 1679792400000 then 3600000 else 7200000)
         else (if t < 1679799600000 then 3600000 else 7200000))\<rparr>"

definition tick_host :: host where
  "tick_host = \<lparr>clock_now = 1678881600000, clock_startDate = 1678881600001,
                LocalTZA = (\<lambda>t isUTC. 0)\<rparr>"

definition month_tick_host :: host where
  "month_tick_host = \<lparr>clock_now = 1675209599999, clock_startDate = 1675209600000,
                      LocalTZA = (\<lambda>t isUTC. 0)\<rparr>"

definition ex_ok :: outcomes where
  "ex_ok = \<lparr>failure = (\<lambda>q. None), settled = (\<lambda>q. 0)\<rparr>"

definition ex_fail :: outcomes where
  "ex_fail = \<lparr>failure = (\<lambda>q. if q = TopPaths then Some (PrismaError ''P1001'') else None),
              settled = (\<lambda>q. 0)\<rparr>"

definition hit :: "string \<Rightarrow> string option \<Rightarrow> int \<Rightarrow> bool \<Rightarrow> NotFoundError" where
  "hit p r ts fixed =
     \<lparr>shopDomain = ''x.myshopify.com'', path = p, referer = r, timestamp = ts,
      redirected = fixed\<rparr>"

text \<open>Three hits within the last day (on \<open>/a\<close>, \<open>/b\<close>, \<open>/a\<close>), one two days ago, one of
  another shop, one of December 2022; a redirect of half an hour ago and an old one.\<close>

definition ex_db :: db where
  "ex_db =
     \<lparr>notFoundError =
        [hit ''/a'' (Some ''https://www.google.com/'') 1678878000000 False,
         hit ''/b'' None 1678874400000 True,
         hit ''/a'' (Some ''https://www.google.com/'') 1678870800000 False,
         hit ''/c'' None 1678708800000 False,
         \<lparr>shopDomain = ''y.myshopify.com'', path = ''/z'', referer = None,
           timestamp = 1678878000000, redirected = False\<rparr>,
         hit ''/old'' None 1670000000000 False],
      redirect =
        [\<lparr>redirect_shopDomain = ''x.myshopify.com'', createdAt = 1678879800000\<rparr>,
         \<lparr>redirect_shopDomain = ''x.myshopify.com'', createdAt = 1670000000000\<rparr>],
      themeStatus =
        [\<lparr>status_shopDomain = ''x.myshopify.com'',
           themeId = ''gid://shopify/OnlineStoreTheme/1'', status_isActive = True\<rparr>,
         \<lparr>status_shopDomain = ''y.myshopify.com'',
           themeId = ''gid://shopify/OnlineStoreTheme/2'', status_isActive = True\<rparr>]\<rparr>"

text \<open>A hit and a redirect recorded one second after the loader read the clock.\<close>

definition late_db :: db where
  "late_db =
     \<lparr>notFoundError = [hit ''/late'' (Some ''https://example.org/'') 1678881601000 False],
      redirect = [\<lparr>redirect_shopDomain = ''x.myshopify.com'', createdAt = 1678881601000\<rparr>],
      themeStatus = []\<rparr>"

text \<open>A fixed hit of an hour ago and two unfixed hits recorded after the clock
  reading.\<close>

definition late_unfixed_db :: db where
  "late_unfixed_db =
     \<lparr>notFoundError =
        [hit ''/sale'' None 1678878000000 True,
         hit ''/new'' None 1678881600250 False,
         hit ''/new'' None 1678881600900 False],
      redirect = [], themeStatus = []\<rparr>"

text \<open>Two hits on \<open>/a\<close> of the last two hours and a hit on \<open>/zz\<close> recorded half a
  second after the clock reading.\<close>

definition late_paths_db :: db where
  "late_paths_db =
     \<lparr>notFoundError =
        [hit ''/a'' (Some ''https://r1.example/'') 1678878000000 False,
         hit ''/a'' (Some ''https://r1.example/'') 1678874400000 False,
         hit ''/zz'' (Some ''https://r9.example/'') 1678881600500 False],
      redirect = [], themeStatus = []\<rparr>"

text \<open>Fourteen hits, one a day over the last fourteen days.\<close>

definition month_db :: db where
  "month_db =
     \<lparr>notFoundError =
        map (\<lambda>i. hit ''/gone'' None (1678881600000 - (int i + 1) * 86400000) False) [0..<14],
      redirect = [], themeStatus = []\<rparr>"

text \<open>Eight hits of the last hours: three on \<open>/a\<close>, all from the referer \<open>r0\<close>, and
  one on each of \<open>/b\<close> to \<open>/f\<close>, from three other referers.\<close>

definition popular_db :: db where
  "popular_db =
     \<lparr>notFoundError =
        [hit ''/a'' (Some ''https://r0.example/'') 1678878000000 False,
         hit ''/a'' (Some ''https://r0.example/'') 1678878000001 False,
         hit ''/a'' (Some ''https://r0.example/'') 1678878000002 False,
         hit ''/b'' (Some ''https://r1.example/'') 1678878000003 False,
         hit ''/c'' (Some ''https://r1.example/'') 1678878000004 False,
         hit ''/d'' (Some ''https://r2.example/'') 1678878000005 False,
         hit ''/e'' (Some ''https://r3.example/'') 1678878000006 False,
         hit ''/f'' (Some ''https://r3.example/'') 1678878000007 False],
      redirect = [], themeStatus = []\<rparr>"

definition ex_nodes :: "ThemeNode list" where
  "ex_nodes =
     [\<lparr>id' = ''gid://shopify/OnlineStoreTheme/1'', name = ''Dawn'', role = ''main''\<rparr>,
      \<lparr>id' = ''gid://shopify/OnlineStoreTheme/2'', name = ''Craft'', role = ''unpublished''\<rparr>]"

section \<open>The calendar\<close>

text \<open>The year search returns the year of the specification: the largest year that
  starts on or before the day.\<close>

lemma DayFromYear_mono: "y \<le> y' \<Longrightarrow> DayFromYear y \<le> DayFromYear y'"
proof (induction y' rule: int_ge_induct)
  case base
  show ?case by simp
next
  case (step i)
  have "DayFromYear (i + 1) = DayFromYear i + DaysInYear i" by (rule DayFromYear_step)
  with step DaysInYear_bounds(1) [of i] show ?case by linarith
qed

lemma DayFromYear_1970: "DayFromYear 1970 = 0"
  by (simp add: DayFromYear_def)

lemma DayFromYear_upper: "0 \<le> k \<Longrightarrow> DayFromYear (1970 + k) \<le> 366 * k"
proof (induction k rule: int_ge_induct)
  case base
  show ?case by (simp add: DayFromYear_1970)
next
  case (step i)
  have "DayFromYear (1970 + i + 1) = DayFromYear (1970 + i) + DaysInYear (1970 + i)"
    by (rule DayFromYear_step)
  with step DaysInYear_bounds(2) [of "1970 + i"] show ?case
    by (simp add: add.assoc)
qed

lemma DayFromYear_lower: "k \<le> 0 \<Longrightarrow> DayFromYear (1970 + k) \<le> 365 * k"
proof (induction k rule: int_le_induct)
  case base
  show ?case by (simp add: DayFromYear_1970)
next
  case (step i)
  have "DayFromYear (1970 + (i - 1) + 1) = DayFromYear (1970 + (i - 1)) + DaysInYear (1970 + (i - 1))"
    by (rule DayFromYear_step)
  with step DaysInYear_bounds(1) [of "1970 + (i - 1)"] show ?case
    by simp
qed

lemma year_from_bounds:
  "DayFromYear y \<le> d \<Longrightarrow>
   DayFromYear (year_from y d) \<le> d \<and> d < DayFromYear (year_from y d + 1)"
proof (induction y d rule: year_from.induct)
  case (1 y d)
  show ?case
  proof (cases "DayFromYear (y + 1) \<le> d")
    case True
    with "1.IH" show ?thesis by (simp add: year_from.simps [of y d])
  next
    case False
    with "1.prems" show ?thesis by (simp add: year_from.simps [of y d])
  qed
qed

lemma YearFromDay_start:
  "DayFromYear (1970 + (if 0 \<le> d then d div 366 else d div 365)) \<le> d"
proof (cases "0 \<le> d")
  case True
  then have "0 \<le> d div 366" by simp
  from DayFromYear_upper [OF this] have "DayFromYear (1970 + d div 366) \<le> 366 * (d div 366)" .
  also have "\<dots> \<le> d"
  proof -
    have "d = 366 * (d div 366) + d mod 366" by simp
    moreover have "0 \<le> d mod 366" by simp
    ultimately show ?thesis by linarith
  qed
  finally show ?thesis using True by simp
next
  case False
  then have "d div 365 \<le> 0" using pos_imp_zdiv_neg_iff [of 365 d] by simp
  from DayFromYear_lower [OF this] have "DayFromYear (1970 + d div 365) \<le> 365 * (d div 365)" .
  also have "\<dots> \<le> d"
  proof -
    have "d = 365 * (d div 365) + d mod 365" by simp
    moreover have "0 \<le> d mod 365" by simp
    ultimately show ?thesis by linarith
  qed
  finally show ?thesis using False by simp
qed

lemma YearFromDay_bounds:
  "DayFromYear (YearFromDay d) \<le> d \<and> d < DayFromYear (YearFromDay d + 1)"
  unfolding YearFromDay_def by (rule year_from_bounds [OF YearFromDay_start])

lemma YearFromDay_largest: "DayFromYear y \<le> d \<longleftrightarrow> y \<le> YearFromDay d"
proof
  assume a: "DayFromYear y \<le> d"
  show "y \<le> YearFromDay d"
  proof (rule ccontr)
    assume "\<not> y \<le> YearFromDay d"
    then have "YearFromDay d + 1 \<le> y" by simp
    from DayFromYear_mono [OF this] a YearFromDay_bounds [of d] show False by linarith
  qed
next
  assume "y \<le> YearFromDay d"
  from DayFromYear_mono [OF this] YearFromDay_bounds [of d] show "DayFromYear y \<le> d" by linarith
qed

lemma YearFromDay_unique:
  assumes "DayFromYear y \<le> d" and "d < DayFromYear (y + 1)"
  shows "YearFromDay d = y"
proof -
  have "y \<le> YearFromDay d" using assms(1) by (simp add: YearFromDay_largest)
  moreover have "\<not> y + 1 \<le> YearFromDay d"
    using assms(2) YearFromDay_largest [of "y + 1" d] by simp
  ultimately show ?thesis by simp
qed

lemma DayWithinYear_range: "0 \<le> DayWithinYear t \<and> DayWithinYear t < DaysInYear (YearFromTime t)"
  using YearFromDay_bounds [of "Day t"]
  by (simp add: DayWithinYear_def YearFromTime_def DayFromYear_step)

lemma MonthFromTime_range: "0 \<le> MonthFromTime t \<and> MonthFromTime t \<le> 11"
  by (simp add: MonthFromTime_def Let_def)

lemma DateFromTime_eq:
  "DateFromTime t = DayWithinYear t - DayFromMonth (MonthFromTime t) (InLeapYear t) + 1"
  by (simp add: DateFromTime_def DayFromMonth_def Let_def)

text \<open>A time value is the day made of its year, month and date, plus its time within
  the day; and \<open>MakeDay\<close> finds the first day of a month as the specification asks.\<close>

lemma Day_eq_MakeDay: "MakeDay (YearFromTime t) (MonthFromTime t) (DateFromTime t) = Day t"
proof -
  have "MonthFromTime t div 12 = 0" "MonthFromTime t mod 12 = MonthFromTime t"
    using MonthFromTime_range [of t] by simp_all
  then show ?thesis
    by (simp add: MakeDay_def Let_def DateFromTime_eq DayWithinYear_def InLeapYear_def)
qed

lemma MakeDay_date: "MakeDay y m dt = MakeDay y m dt' + (dt - dt')"
  by (simp add: MakeDay_def Let_def)

lemma time_split: "TimeWithinDay t = t - Day t * msPerDay"
  by (simp add: Day_def TimeWithinDay_def minus_div_mult_eq_mod [symmetric])

lemma Day_of_day: "Day (D * msPerDay) = D"
  by (simp add: Day_def msPerDay_def)

lemma DaysInYear_leap: "DaysInYear y = 365 + (if DaysInYear y = 365 then 0 else 1)"
  by (simp add: DaysInYear_def)

lemma MakeDay_first_of_month:
  assumes "0 \<le> m" and "m \<le> 11"
  shows "YearFromTime (MakeDay y m 1 * msPerDay) = y
       \<and> MonthFromTime (MakeDay y m 1 * msPerDay) = m
       \<and> DateFromTime (MakeDay y m 1 * msPerDay) = 1"
proof -
  define t where "t = MakeDay y m 1 * msPerDay"
  let ?l = "if DaysInYear y = 365 then 0 else 1 :: int"
  have md: "MakeDay y m 1 = DayFromYear y + DayFromMonth m ?l"
    using assms(1,2) by (simp add: MakeDay_def Let_def)
  have cases: "m = 0 \<or> m = 1 \<or> m = 2 \<or> m = 3 \<or> m = 4 \<or> m = 5 \<or> m = 6 \<or> m = 7 \<or> m = 8
      \<or> m = 9 \<or> m = 10 \<or> m = 11"
    using assms(1,2) by arith
  have r: "0 \<le> DayFromMonth m ?l \<and> DayFromMonth m ?l < DaysInYear y"
    using DaysInYear_leap [of y] DaysInYear_bounds(1) [of y]
    by (simp add: DayFromMonth_def split: if_splits)
  have y: "YearFromTime t = y"
    unfolding YearFromTime_def t_def Day_of_day md
    using r by (intro YearFromDay_unique) (simp_all add: DayFromYear_step)
  have dw: "DayWithinYear t = DayFromMonth m ?l"
    unfolding DayWithinYear_def y by (simp add: t_def Day_of_day md)
  have l: "InLeapYear t = ?l"
    by (simp add: InLeapYear_def y)
  have mo: "MonthFromTime t = m"
    unfolding MonthFromTime_def dw l Let_def
    using cases by (elim disjE) (simp_all add: DayFromMonth_def)
  have "DateFromTime t = 1"
    unfolding DateFromTime_eq dw l mo by simp
  with y mo show ?thesis by (simp add: t_def)
qed

text \<open>In a zone with a fixed offset, \<open>setDate\<close> moves the time value by whole days, and
  \<open>setMonth\<close> to the previous month moves it by the length of that month.\<close>

lemma setDate_fixed_zone:
  assumes "LocalTZA h = (\<lambda>t u. off)"
  shows "setDate h tv dt = tv + (dt - getDate h tv) * msPerDay"
proof -
  let ?t = "tv + off"
  have md: "MakeDay (YearFromTime ?t) (MonthFromTime ?t) dt = Day ?t + (dt - DateFromTime ?t)"
    using MakeDay_date [of "YearFromTime ?t" "MonthFromTime ?t" dt "DateFromTime ?t"]
    by (simp add: Day_eq_MakeDay)
  have "MakeDate (MakeDay (YearFromTime ?t) (MonthFromTime ?t) dt) (TimeWithinDay ?t)
      = ?t + (dt - DateFromTime ?t) * msPerDay"
    unfolding MakeDate_def md time_split [of ?t] by (simp add: algebra_simps)
  then show ?thesis
    using assms by (simp add: setDate_def getDate_def LocalTime_def UTC_def Let_def)
qed

lemma setMonth_fixed_zone:
  assumes "LocalTZA h = (\<lambda>t u. off)"
  shows "setMonth h tv m =
     tv - (Day (tv + off) - MakeDay (YearFromTime (tv + off)) m (DateFromTime (tv + off))) * msPerDay"
proof -
  let ?t = "tv + off"
  have "MakeDate (MakeDay (YearFromTime ?t) m (DateFromTime ?t)) (TimeWithinDay ?t)
      = ?t - (Day ?t - MakeDay (YearFromTime ?t) m (DateFromTime ?t)) * msPerDay"
    unfolding MakeDate_def time_split [of ?t] by (simp add: algebra_simps)
  then show ?thesis
    using assms by (simp add: setMonth_def LocalTime_def UTC_def Let_def)
qed

lemma month_before_length:
  assumes "0 \<le> m" "m \<le> 11"
  shows "MakeDay y m dt - MakeDay y (m - 1) dt \<in> {28, 29, 30, 31}"
proof (cases "m = 0")
  case True
  have "DayFromYear (y - 1 + 1) = DayFromYear (y - 1) + DaysInYear (y - 1)"
    by (rule DayFromYear_step)
  then have "DayFromYear y = DayFromYear (y - 1) + DaysInYear (y - 1)" by simp
  with True DaysInYear_leap [of "y - 1"] show ?thesis
    by (simp add: MakeDay_def Let_def DayFromMonth_def)
next
  case False
  with assms have "m = 1 \<or> m = 2 \<or> m = 3 \<or> m = 4 \<or> m = 5 \<or> m = 6 \<or> m = 7 \<or> m = 8 \<or> m = 9 \<or> m = 10 \<or> m = 11"
    by arith
  then show ?thesis
    by (elim disjE) (simp_all add: MakeDay_def Let_def DayFromMonth_def)
qed

lemma startDate_day_week:
  assumes "LocalTZA h = (\<lambda>t isUTC. off)" and "clock_startDate h = clock_now h"
  shows "setDate h (clock_startDate h) (getDate h (clock_now h) - k) = clock_now h - k * msPerDay"
  by (simp add: setDate_fixed_zone [OF assms(1)] assms(2) algebra_simps)

lemma startDate_month:
  assumes "LocalTZA h = (\<lambda>t isUTC. off)" and "clock_startDate h = clock_now h"
  shows "clock_now h - setMonth h (clock_startDate h) (getMonth h (clock_now h) - 1) =
     (let t = LocalTime h (clock_now h)
      in MakeDay (YearFromTime t) (MonthFromTime t) 1
           - MakeDay (YearFromTime t) (MonthFromTime t - 1) 1) * msPerDay"
proof -
  let ?t = "clock_now h + off"
  have t: "LocalTime h (clock_now h) = ?t" by (simp add: LocalTime_def assms(1))
  have "Day ?t - MakeDay (YearFromTime ?t) (MonthFromTime ?t - 1) (DateFromTime ?t)
      = MakeDay (YearFromTime ?t) (MonthFromTime ?t) (DateFromTime ?t)
          - MakeDay (YearFromTime ?t) (MonthFromTime ?t - 1) (DateFromTime ?t)"
    by (simp add: Day_eq_MakeDay)
  also have "\<dots> = MakeDay (YearFromTime ?t) (MonthFromTime ?t) 1
          - MakeDay (YearFromTime ?t) (MonthFromTime ?t - 1) 1"
    using MakeDay_date [of "YearFromTime ?t" "MonthFromTime ?t" "DateFromTime ?t" 1]
      MakeDay_date [of "YearFromTime ?t" "MonthFromTime ?t - 1" "DateFromTime ?t" 1]
    by simp
  finally show ?thesis
    by (simp add: setMonth_fixed_zone [OF assms(1)] assms(2) getMonth_def t Let_def)
qed

section \<open>The queries\<close>

lemma foldl_count_sum: "foldl (\<lambda>sum error. sum + snd error) a es = a + sum_list (map snd es)"
  for a :: nat
  by (induction es arbitrary: a) simp_all

lemma group_sizes_total:
  assumes "distinct ks" and "key ` set sel \<subseteq> set ks"
  shows "sum_list (map (\<lambda>k. length (filter (\<lambda>r. key r = k) sel)) ks) = length sel"
  using assms(2)
proof (induction sel)
  case Nil
  show ?case by simp
next
  case (Cons r sel)
  have in_ks: "key r \<in> set ks" using Cons.prems by simp
  have "sum_list (map (\<lambda>k. length (filter (\<lambda>r'. key r' = k) (r # sel))) ks)
      = sum_list (map (\<lambda>k. (if key r = k then 1 else 0) + length (filter (\<lambda>r'. key r' = k) sel)) ks)"
    by (rule arg_cong [where f = sum_list]) (simp cong: map_cong)
  also have "\<dots> = sum_list (map (\<lambda>k. if key r = k then 1 else 0) ks)
      + sum_list (map (\<lambda>k. length (filter (\<lambda>r'. key r' = k) sel)) ks)"
    by (simp add: sum_list_addf)
  also have "sum_list (map (\<lambda>k. if key r = k then 1 else 0) ks) = (1::nat)"
    using assms(1) in_ks
    by (simp add: sum_list_distinct_conv_sum_set sum.delta)
  also have "sum_list (map (\<lambda>k. length (filter (\<lambda>r'. key r' = k) sel)) ks) = length sel"
    using Cons by simp
  finally show ?case by simp
qed

lemma groupBy_all_total:
  "sum_list (map snd (groupBy key wh ord None rows)) = length (filter wh rows)"
proof -
  let ?sel = "filter wh rows"
  let ?ks = "sort (remdups (map key ?sel))"
  have "sum_list (map (\<lambda>k. length (filter (\<lambda>r. key r = k) ?sel)) ?ks) = length ?sel"
    by (rule group_sizes_total) simp_all
  then show ?thesis
    by (cases ord) (simp_all add: groupBy_def Let_def comp_def rev_map [symmetric])
qed

lemma groupBy_desc_take:
  "groupBy key wh desc (Some n) rows =
     take n (map (\<lambda>k. (k, length (filter (\<lambda>r. key r = k) (filter wh rows))))
               (rev (sorted_list_of_set (key ` set (filter wh rows)))))"
  by (simp add: groupBy_def Let_def rev_map sorted_list_of_set_sort_remdups [symmetric] del: set_filter)

lemma desc_keys:
  "sorted_wrt (>) (map fst (take n (map (\<lambda>k. (k, f k)) (rev (sorted_list_of_set S)))))"
proof -
  have "sorted_wrt (<) (sorted_list_of_set S)"
    by (rule strict_sorted_list_of_set)
  then have "sorted_wrt (>) (rev (sorted_list_of_set S))"
    by (simp add: sorted_wrt_rev)
  then have "sorted_wrt (>) (take n (rev (sorted_list_of_set S)))"
    by (rule sorted_wrt_take)
  then show ?thesis by (simp add: take_map comp_def)
qed

lemma all_queries_complete: "q \<in> set all_queries"
  by (cases q) (simp_all add: all_queries_def)

lemma sort_key_nonempty: "x \<in> set xs \<Longrightarrow> \<exists>y ys. sort_key f xs = y # ys \<and> y \<in> set xs"
proof -
  assume "x \<in> set xs"
  then have "set (sort_key f xs) \<noteq> {}" by auto
  then obtain y ys where c: "sort_key f xs = y # ys"
    by (cases "sort_key f xs") simp_all
  have "set (sort_key f xs) = set xs" by simp
  with c have "y \<in> set xs" by (metis list.set_intros(1))
  with c show ?thesis by blast
qed

lemma first_rejection_None: "first_rejection oc = None \<longleftrightarrow> (\<forall>q. failure oc q = None)"
proof
  assume n: "first_rejection oc = None"
  show "\<forall>q. failure oc q = None"
  proof (rule ccontr)
    assume "\<not> (\<forall>q. failure oc q = None)"
    then obtain q where q: "failure oc q \<noteq> None" by blast
    let ?fs = "filter (\<lambda>q. failure oc q \<noteq> None) all_queries"
    have "q \<in> set ?fs" using q all_queries_complete by simp
    from sort_key_nonempty [OF this, of "settled oc"]
    obtain q' qs where c: "sort_key (settled oc) ?fs = q' # qs" and m: "q' \<in> set ?fs"
      by blast
    from m have "failure oc q' \<noteq> None" by simp
    with n show False unfolding first_rejection_def c by simp
  qed
next
  assume "\<forall>q. failure oc q = None"
  then show "first_rejection oc = None" by (simp add: first_rejection_def)
qed

lemma first_rejection_Some:
  assumes "first_rejection oc = Some e"
  shows "\<exists>q. failure oc q = Some e"
proof -
  let ?fs = "filter (\<lambda>q. failure oc q \<noteq> None) all_queries"
  from assms obtain q qs where "sort_key (settled oc) ?fs = q # qs" and "failure oc q = Some e"
    by (auto simp: first_rejection_def split: list.splits)
  then show ?thesis by blast
qed

lemma loader_Inr:
  assumes "loader h oc d shop param = Inr s"
  shows "first_rejection oc = None"
    and "s = \<lparr>errors = errors_query d shop (startDate_of h (range_of param)) (clock_now h),
              topPaths = topPaths_query d shop (startDate_of h (range_of param)),
              range' = range_of param,
              totalRedirects = totalRedirects_query d shop (startDate_of h (range_of param)),
              totalErrors = foldl (\<lambda>sum error. sum + snd error) 0
                 (errors_query d shop (startDate_of h (range_of param)) (clock_now h)),
              avgDaily = Math_round (real (foldl (\<lambda>sum error. sum + snd error) 0
                 (errors_query d shop (startDate_of h (range_of param)) (clock_now h)))
                   / real_of_int (divisor_of (range_of param))),
              unfixedErrors = unfixedErrors_query d shop (startDate_of h (range_of param)),
              topReferrers = topReferrers_query d shop (startDate_of h (range_of param))\<rparr>"
  using assms by (auto simp: loader_def Let_def split: option.splits)

lemma loader_Inl:
  "loader h oc d shop param = Inl e \<longleftrightarrow> first_rejection oc = Some e"
  by (auto simp: loader_def Let_def split: option.splits)

text \<open>The error of a failed request is the one of a query that failed, and no failed
  query settled before that one.\<close>

lemma sort_key_head_least:
  assumes "sort_key f xs = y # ys" and "x \<in> set xs"
  shows "f y \<le> f x"
proof -
  have "sorted (map f (sort_key f xs))" by (rule sorted_sort_key)
  then have s: "sorted (f y # map f ys)" by (simp add: assms(1))
  have "x \<in> set (sort_key f xs)" using assms(2) by simp
  then have "x = y \<or> x \<in> set ys" by (simp add: assms(1))
  with s show ?thesis by auto
qed

lemma first_rejection_earliest:
  assumes "loader h oc d shop param = Inl e"
  shows "\<exists>q. failure oc q = Some e
            \<and> (\<forall>q'. failure oc q' \<noteq> None \<longrightarrow> settled oc q \<le> settled oc q')"
proof -
  let ?fs = "filter (\<lambda>q. failure oc q \<noteq> None) all_queries"
  from assms have "first_rejection oc = Some e" by (simp add: loader_Inl)
  then obtain q qs where c: "sort_key (settled oc) ?fs = q # qs" and e: "failure oc q = Some e"
    by (auto simp: first_rejection_def split: list.splits)
  have "settled oc q \<le> settled oc q'" if "failure oc q' \<noteq> None" for q'
  proof -
    have "q' \<in> set ?fs" using that all_queries_complete by simp
    with c show ?thesis by (rule sort_key_head_least)
  qed
  with e show ?thesis by blast
qed

text \<open>\<^verbatim>\<open>Math.round\<close> of a quotient of integers, in integer arithmetic.\<close>

lemma Math_round_nearest: "\<bar>real_of_int (Math_round x) - x\<bar> \<le> 1 / 2"
  unfolding Math_round_def by linarith

lemma Math_round_div:
  assumes "0 < d"
  shows "Math_round (real n / real_of_int d) = (2 * int n + d) div (2 * d)"
proof -
  have "real n / real_of_int d + 1 / 2 = real_of_int (2 * int n + d) / real_of_int (2 * d)"
    using assms by (simp add: field_simps)
  then show ?thesis
    unfolding Math_round_def by (simp only: floor_divide_of_int_eq)
qed

text \<open>
  \<open>totalErrors\<close> is the number of error records of the shop in \<open>[startDate, now]\<close>.
  The four queries without an upper bound agree with their bounded forms on a store
  that holds no record later than \<open>now\<close>, and there \<open>unfixedErrors \<le> totalErrors\<close>.
\<close>

lemma totalErrors_rows:
  assumes "loader h oc d shop param = Inr s"
  shows "totalErrors s =
     count (\<lambda>r. shopDomain r = shop \<and> startDate_of h (range_of param) \<le> timestamp r
                \<and> timestamp r \<le> clock_now h) (notFoundError d)"
  by (simp add: loader_Inr(2) [OF assms] foldl_count_sum errors_query_def groupBy_all_total count_def)

lemma count_mono:
  "(\<And>r. r \<in> set rows \<Longrightarrow> P r \<Longrightarrow> Q r) \<Longrightarrow> count P rows \<le> count Q rows"
  unfolding count_def by (induction rows) auto

lemma queries_without_late_rows:
  assumes "\<And>r. r \<in> set (notFoundError d) \<Longrightarrow> timestamp r \<le> now"
    and "\<And>r. r \<in> set (redirect d) \<Longrightarrow> createdAt r \<le> now"
  shows "topPaths_query d shop startDate =
           groupBy path (\<lambda>r. shopDomain r = shop \<and> startDate \<le> timestamp r \<and> timestamp r \<le> now)
             desc (Some 5) (notFoundError d)"
    and "totalRedirects_query d shop startDate =
           count (\<lambda>r. redirect_shopDomain r = shop \<and> startDate \<le> createdAt r \<and> createdAt r \<le> now)
             (redirect d)"
    and "unfixedErrors_query d shop startDate =
           count (\<lambda>r. shopDomain r = shop \<and> redirected r = False \<and> startDate \<le> timestamp r
                      \<and> timestamp r \<le> now) (notFoundError d)"
    and "topReferrers_query d shop startDate =
           groupBy referer (\<lambda>r. shopDomain r = shop \<and> startDate \<le> timestamp r \<and> timestamp r \<le> now)
             desc (Some 3) (notFoundError d)"
proof -
  have f: "filter (\<lambda>r. shopDomain r = shop \<and> startDate \<le> timestamp r) (notFoundError d)
      = filter (\<lambda>r. shopDomain r = shop \<and> startDate \<le> timestamp r \<and> timestamp r \<le> now)
          (notFoundError d)"
    using assms(1) by (intro filter_cong) auto
  have g: "filter (\<lambda>r. shopDomain r = shop \<and> redirected r = False \<and> startDate \<le> timestamp r)
          (notFoundError d)
      = filter (\<lambda>r. shopDomain r = shop \<and> redirected r = False \<and> startDate \<le> timestamp r
          \<and> timestamp r \<le> now) (notFoundError d)"
    using assms(1) by (intro filter_cong) auto
  have k: "filter (\<lambda>r. redirect_shopDomain r = shop \<and> startDate \<le> createdAt r) (redirect d)
      = filter (\<lambda>r. redirect_shopDomain r = shop \<and> startDate \<le> createdAt r \<and> createdAt r \<le> now)
          (redirect d)"
    using assms(2) by (intro filter_cong) auto
  show "topPaths_query d shop startDate =
           groupBy path (\<lambda>r. shopDomain r = shop \<and> startDate \<le> timestamp r \<and> timestamp r \<le> now)
             desc (Some 5) (notFoundError d)"
    unfolding topPaths_query_def groupBy_def f ..
  show "topReferrers_query d shop startDate =
           groupBy referer (\<lambda>r. shopDomain r = shop \<and> startDate \<le> timestamp r \<and> timestamp r \<le> now)
             desc (Some 3) (notFoundError d)"
    unfolding topReferrers_query_def groupBy_def f ..
  show "totalRedirects_query d shop startDate =
           count (\<lambda>r. redirect_shopDomain r = shop \<and> startDate \<le> createdAt r \<and> createdAt r \<le> now)
             (redirect d)"
    unfolding totalRedirects_query_def count_def k ..
  show "unfixedErrors_query d shop startDate =
           count (\<lambda>r. shopDomain r = shop \<and> redirected r = False \<and> startDate \<le> timestamp r
                      \<and> timestamp r \<le> now) (notFoundError d)"
    unfolding unfixedErrors_query_def count_def g ..
qed

lemma unfixedErrors_le_totalErrors_without_late_rows:
  assumes "loader h oc d shop param = Inr s"
    and "\<And>r. r \<in> set (notFoundError d) \<Longrightarrow> timestamp r \<le> clock_now h"
  shows "unfixedErrors s \<le> totalErrors s"
proof -
  have "unfixedErrors s = unfixedErrors_query d shop (startDate_of h (range_of param))"
    by (simp add: loader_Inr(2) [OF assms(1)])
  also have "\<dots> \<le> count (\<lambda>r. shopDomain r = shop \<and> startDate_of h (range_of param) \<le> timestamp r
                \<and> timestamp r \<le> clock_now h) (notFoundError d)"
    unfolding unfixedErrors_query_def using assms(2) by (intro count_mono) simp
  also have "\<dots> = totalErrors s" by (simp add: totalErrors_rows [OF assms(1)])
  finally show ?thesis .
qed

text \<open>
  A range value that is none of \<open>day\<close>, \<open>week\<close>, \<open>month\<close> gets the start date of
  \<open>week\<close>, so the five queries return what they return for \<open>week\<close>; the snapshot
  differs from the one of \<open>week\<close> in the echoed range and in \<open>avgDaily\<close>, which divides
  by 30.
\<close>

lemma unsupported_range_startDate:
  "rng \<noteq> ''day'' \<Longrightarrow> rng \<noteq> ''month'' \<Longrightarrow> startDate_of h rng = startDate_of h ''week''"
  by (simp add: startDate_of_def)

lemma unsupported_range_snapshot:
  assumes "rng \<noteq> ''day''" "rng \<noteq> ''week''" "rng \<noteq> ''month''" "rng \<noteq> []"
    and "loader h oc d shop (Some rng) = Inr s"
    and "loader h oc d shop (Some ''week'') = Inr s'"
  shows "s = s'\<lparr>range' := rng, avgDaily := Math_round (real (totalErrors s') / 30)\<rparr>"
proof -
  have r: "range_of (Some rng) = rng"
    using assms(4) by (simp add: range_of_def)
  have r': "range_of (Some ''week'') = ''week''"
    by (simp add: range_of_def)
  have sd: "startDate_of h rng = startDate_of h ''week''"
    using assms(1,3) by (rule unsupported_range_startDate)
  have dv: "divisor_of rng = 30"
    using assms(1,2) by (simp add: divisor_of_def)
  note a = loader_Inr(2) [OF assms(5), unfolded r sd dv]
  note b = loader_Inr(2) [OF assms(6), unfolded r']
  show ?thesis
    by (simp add: a b)
qed

lemma statusMap_lookup:
  "statusMap rows k =
     (let xs = filter (\<lambda>status. themeId status = k) rows
      in if xs = [] then None else Some (status_isActive (last xs)))"
proof (induction rows rule: rev_induct)
  case Nil
  show ?case by (simp add: statusMap_def)
next
  case (snoc r rows)
  have step: "statusMap (rows @ [r]) = (statusMap rows)(themeId r \<mapsto> status_isActive r)"
    by (simp add: statusMap_def)
  show ?case
  proof (cases "themeId r = k")
    case True
    then show ?thesis by (simp add: step Let_def)
  next
    case False
    then show ?thesis using snoc by (simp add: step Let_def)
  qed
qed

lemma truncate_extend: "ThemeNode.truncate (ThemeNode.extend n (Theme.fields b)) = n"
  by (cases n) (simp add: ThemeNode.extend_def ThemeNode.truncate_def Theme.fields_def)

section \<open>The window, the top lists and the average\<close>

text \<open>
  When both clock readings are the same instant and the zone has a fixed offset from
  UTC, \<^verbatim>\<open>setDate\<close> goes back whole days: the window is exactly 1 day long for \<open>day\<close> and
  exactly 7 days for \<open>week\<close> and for every value that is neither \<open>day\<close> nor \<open>month\<close>.
  \<^verbatim>\<open>setMonth\<close> goes back to the same date of the month before: for \<open>month\<close> the window
  is as long as that calendar month, the days from its first to the first of the
  current month.
\<close>

lemma window_length:
  assumes "clock_startDate h = clock_now h" and "LocalTZA h = (\<lambda>t isUTC. off)"
  shows "clock_now h - startDate_of h (range_of param) =
           (if range_of param = ''day'' then 1 * msPerDay
            else if range_of param = ''month'' then
              (let t = LocalTime h (clock_now h)
               in MakeDay (YearFromTime t) (MonthFromTime t) 1
                    - MakeDay (YearFromTime t) (MonthFromTime t - 1) 1) * msPerDay
            else 7 * msPerDay)
       \<and> (range_of param = ''month'' \<longrightarrow>
            28 * msPerDay \<le> clock_now h - startDate_of h (range_of param)
          \<and> clock_now h - startDate_of h (range_of param) \<le> 31 * msPerDay)"
proof -
  let ?t = "LocalTime h (clock_now h)"
  let ?len = "MakeDay (YearFromTime ?t) (MonthFromTime ?t) 1
                - MakeDay (YearFromTime ?t) (MonthFromTime ?t - 1) 1"
  have eq: "clock_now h - startDate_of h (range_of param) =
           (if range_of param = ''day'' then 1 * msPerDay
            else if range_of param = ''month'' then ?len * msPerDay
            else 7 * msPerDay)"
    using startDate_day_week [OF assms(2) assms(1)] startDate_month [OF assms(2) assms(1)]
    by (simp add: startDate_of_def Let_def)
  have "?len \<in> {28, 29, 30, 31}"
    using MonthFromTime_range [of ?t] by (intro month_before_length) simp_all
  then have "28 \<le> ?len \<and> ?len \<le> 31" by auto
  then have b: "28 * msPerDay \<le> ?len * msPerDay \<and> ?len * msPerDay \<le> 31 * msPerDay"
    by (simp add: msPerDay_def)
  show ?thesis
  proof (intro conjI impI)
    show "clock_now h - startDate_of h (range_of param) =
           (if range_of param = ''day'' then 1 * msPerDay
            else if range_of param = ''month'' then
              (let t = LocalTime h (clock_now h)
               in MakeDay (YearFromTime t) (MonthFromTime t) 1
                    - MakeDay (YearFromTime t) (MonthFromTime t - 1) 1) * msPerDay
            else 7 * msPerDay)"
      using eq by (simp add: Let_def)
  next
    assume m: "range_of param = ''month''"
    then have "clock_now h - startDate_of h (range_of param) = ?len * msPerDay"
      using eq by simp
    with b show "28 * msPerDay \<le> clock_now h - startDate_of h (range_of param)"
      and "clock_now h - startDate_of h (range_of param) \<le> 31 * msPerDay"
      by simp_all
  qed
qed

lemma window_length_example:
  "clock_now ex_host - startDate_of ex_host (range_of (Some ''day'')) = 86400000
   \<and> clock_now ex_host - startDate_of ex_host (range_of (Some ''month'')) = 28 * 86400000
   \<and> clock_now ex_host - startDate_of ex_host (range_of (Some ''quarter'')) = 7 * 86400000
   \<and> clock_now ex_host - startDate_of ex_host (range_of None) = 7 * 86400000"
proof -
  have s: "clock_startDate ex_host = clock_now ex_host"
    and z: "LocalTZA ex_host = (\<lambda>t isUTC. 0)"
    by (simp_all add: ex_host_def)
  have len: "(let t = LocalTime ex_host (clock_now ex_host)
      in MakeDay (YearFromTime t) (MonthFromTime t) 1
           - MakeDay (YearFromTime t) (MonthFromTime t - 1) 1) = 28"
    by code_simp
  show ?thesis
    using window_length [OF s z, of "Some ''day''"] window_length [OF s z, of "Some ''month''"]
      window_length [OF s z, of "Some ''quarter''"] window_length [OF s z, of None]
    by (simp add: range_of_def msPerDay_def len)
qed

text \<open>
  Outside these conditions the window of \<open>day\<close> is not 24 hours either: \<^verbatim>\<open>setDate\<close>
  works on local time, so across a change of the zone's offset one local day back is
  23 hours; \<open>startDate\<close> is made from a clock reading of its own, so a tick between
  the two readings shortens the window by a millisecond, and a tick into the next
  month puts day 30 into February: \<open>startDate\<close> is 2023-03-02, later than \<open>now\<close>.
\<close>

lemma day_window_over_offset_change:
  "clock_now dst_host - startDate_of dst_host ''day'' = 23 * 3600000"
  by code_simp

lemma day_window_clock_tick:
  "clock_now tick_host - startDate_of tick_host ''day'' = msPerDay - 1"
  by code_simp

lemma startDate_after_now_on_month_tick:
  "startDate_of month_tick_host ''day'' = 1677715200000
   \<and> clock_now month_tick_host < startDate_of month_tick_host ''day''"
  by code_simp

text \<open>
  What the two top queries return, for any store: the rows the query selects (the
  shop's from \<open>startDate\<close> on) are grouped by path (by referer), each group is
  counted, the groups are listed by key, descending in the order of the key's type,
  and the first 5 (the first 3) are kept; so the keys of the result are strictly
  descending and the result is never longer than 5 (than 3). The order is not by
  count: in the example the path and the referer with the most hits, \<open>/a\<close> and \<open>r0\<close>,
  are the ones cut off.
\<close>

lemma top_groups:
  assumes "loader h oc d shop param = Inr s"
  shows
    "(let sel = filter (\<lambda>r. shopDomain r = shop \<and> startDate_of h (range_of param) \<le> timestamp r)
                  (notFoundError d)
      in topPaths s =
           take 5 (map (\<lambda>k. (k, length (filter (\<lambda>r. path r = k) sel)))
                     (rev (sorted_list_of_set (path ` set sel))))
       \<and> topReferrers s =
           take 3 (map (\<lambda>k. (k, length (filter (\<lambda>r. referer r = k) sel)))
                     (rev (sorted_list_of_set (referer ` set sel))))
       \<and> ((\<forall>r \<in> set (notFoundError d). timestamp r \<le> clock_now h) \<longrightarrow>
            sel = filter (\<lambda>r. shopDomain r = shop
                              \<and> startDate_of h (range_of param) \<le> timestamp r
                              \<and> timestamp r \<le> clock_now h) (notFoundError d)))
     \<and> sorted_wrt (>) (map fst (topPaths s)) \<and> sorted_wrt (>) (map fst (topReferrers s))
     \<and> length (topPaths s) \<le> 5 \<and> length (topReferrers s) \<le> 3"
proof -
  have p: "topPaths s = topPaths_query d shop (startDate_of h (range_of param))"
    and r: "topReferrers s = topReferrers_query d shop (startDate_of h (range_of param))"
    by (simp_all add: loader_Inr(2) [OF assms])
  have w: "filter (\<lambda>r. shopDomain r = shop \<and> startDate_of h (range_of param) \<le> timestamp r)
             (notFoundError d)
         = filter (\<lambda>r. shopDomain r = shop \<and> startDate_of h (range_of param) \<le> timestamp r
                         \<and> timestamp r \<le> clock_now h) (notFoundError d)"
    if "\<forall>r \<in> set (notFoundError d). timestamp r \<le> clock_now h"
    using that by (intro filter_cong) auto
  have g: "topPaths_query d shop sd =
         take 5 (map (\<lambda>k. (k, length (filter (\<lambda>r. path r = k)
                   (filter (\<lambda>r. shopDomain r = shop \<and> sd \<le> timestamp r) (notFoundError d)))))
           (rev (sorted_list_of_set (path `
              set (filter (\<lambda>r. shopDomain r = shop \<and> sd \<le> timestamp r) (notFoundError d))))))"
    and g': "topReferrers_query d shop sd =
         take 3 (map (\<lambda>k. (k, length (filter (\<lambda>r. referer r = k)
                   (filter (\<lambda>r. shopDomain r = shop \<and> sd \<le> timestamp r) (notFoundError d)))))
           (rev (sorted_list_of_set (referer `
              set (filter (\<lambda>r. shopDomain r = shop \<and> sd \<le> timestamp r) (notFoundError d))))))"
    for sd
    unfolding topPaths_query_def topReferrers_query_def by (rule groupBy_desc_take)+
  have srt: "sorted_wrt (>) (map fst (topPaths s))" "sorted_wrt (>) (map fst (topReferrers s))"
    unfolding p r g g' by (rule desc_keys)+
  have len: "length (topPaths s) \<le> 5" "length (topReferrers s) \<le> 3"
    unfolding p r g g' by simp_all
  show ?thesis
    unfolding Let_def using srt len w by (intro conjI impI) (simp_all only: p r g g')
qed

lemma top_groups_example:
  "loader ex_host ex_ok popular_db ''x.myshopify.com'' (Some ''day'') =
     Inr \<lparr>errors = [(1678878000000, 1), (1678878000001, 1), (1678878000002, 1),
                    (1678878000003, 1), (1678878000004, 1), (1678878000005, 1),
                    (1678878000006, 1), (1678878000007, 1)],
          topPaths = [(''/f'', 1), (''/e'', 1), (''/d'', 1), (''/c'', 1), (''/b'', 1)],
          range' = ''day'', totalRedirects = 0, totalErrors = 8, avgDaily = 8,
          unfixedErrors = 8,
          topReferrers = [(Some ''https://r3.example/'', 2), (Some ''https://r2.example/'', 1),
                          (Some ''https://r1.example/'', 2)]\<rparr>
   \<and> sorted_wrt (>) [''/f'', ''/e'', ''/d'', ''/c'', ''/b'']
   \<and> sorted_wrt (>) [Some ''https://r3.example/'', Some ''https://r2.example/'',
                       Some ''https://r1.example/'']
   \<and> list_all (\<lambda>r. timestamp r \<le> clock_now ex_host) (notFoundError popular_db)"
proof -
  have e: "loader ex_host ex_ok popular_db ''x.myshopify.com'' (Some ''day'') =
     Inr \<lparr>errors = [(1678878000000, 1), (1678878000001, 1), (1678878000002, 1),
                    (1678878000003, 1), (1678878000004, 1), (1678878000005, 1),
                    (1678878000006, 1), (1678878000007, 1)],
          topPaths = [(''/f'', 1), (''/e'', 1), (''/d'', 1), (''/c'', 1), (''/b'', 1)],
          range' = ''day'', totalRedirects = 0, totalErrors = 8, avgDaily = 8,
          unfixedErrors = 8,
          topReferrers = [(Some ''https://r3.example/'', 2), (Some ''https://r2.example/'', 1),
                          (Some ''https://r1.example/'', 2)]\<rparr>"
    by code_simp
  have t: "list_all (\<lambda>r. timestamp r \<le> clock_now ex_host) (notFoundError popular_db)"
    by code_simp
  from top_groups [OF e, THEN conjunct2] have
    "sorted_wrt (>) (map fst [(''/f'', 1::nat), (''/e'', 1), (''/d'', 1), (''/c'', 1), (''/b'', 1)])"
    and "sorted_wrt (>) (map fst [(Some ''https://r3.example/'', 2::nat),
          (Some ''https://r2.example/'', 1), (Some ''https://r1.example/'', 2)])"
    by simp_all
  with e t show ?thesis by simp
qed

text \<open>
  For \<open>day\<close> and \<open>week\<close>, under the conditions above, \<open>avgDaily\<close> is \<open>totalErrors\<close>
  divided by the length of the window in days, rounded.
\<close>

lemma avgDaily_day_week:
  assumes "loader h oc d shop param = Inr s"
    and "range_of param = ''day'' \<or> range_of param = ''week''"
    and "clock_startDate h = clock_now h" and "LocalTZA h = (\<lambda>t isUTC. off)"
  shows "avgDaily s = Math_round (real (totalErrors s)
           / real_of_int ((clock_now h - startDate_of h (range_of param)) div msPerDay))"
proof -
  have a: "avgDaily s = Math_round (real (totalErrors s) / real_of_int (divisor_of (range_of param)))"
    by (simp add: loader_Inr(2) [OF assms(1)])
  have "clock_now h - startDate_of h (range_of param) = divisor_of (range_of param) * msPerDay"
    using startDate_day_week [OF assms(4) assms(3)] assms(2)
    by (auto simp: startDate_of_def divisor_of_def)
  then have "(clock_now h - startDate_of h (range_of param)) div msPerDay = divisor_of (range_of param)"
    by (simp add: msPerDay_def)
  with a show ?thesis by simp
qed

section \<open>The claims\<close>

text \<open>
  Claim C1: every metric of a snapshot counts only records of the window
  \<open>[startDate, now]\<close>; each of the five queries applies the lower bound \<open>startDate\<close> and
  the upper bound \<open>now\<close>. Only the first query (\<open>errors_query\<close>) has \<^verbatim>\<open>lte: now\<close>; the
  other four have the lower bound alone, though the source calls their results
  "in period". With a hit and a redirect recorded one second after the clock reading,
  the series and \<open>totalErrors\<close> leave the hit out, while \<open>topPaths\<close>, \<open>totalRedirects\<close>,
  \<open>unfixedErrors\<close> and \<open>topReferrers\<close> count records later than \<open>now\<close>. (On a store
  without such records all five queries read the same window: lemma
  \<open>queries_without_late_rows\<close>.)
\<close>

theorem late_rows_counted:
  "loader ex_host ex_ok late_db ''x.myshopify.com'' (Some ''week'') =
     Inr \<lparr>errors = [], topPaths = [(''/late'', 1)], range' = ''week'', totalRedirects = 1,
          totalErrors = 0, avgDaily = 0, unfixedErrors = 1,
          topReferrers = [(Some ''https://example.org/'', 1)]\<rparr>
   \<and> list_all (\<lambda>r. clock_now ex_host < timestamp r) (notFoundError late_db)
   \<and> list_all (\<lambda>r. clock_now ex_host < createdAt r) (redirect late_db)"
  by code_simp

text \<open>
  Claim C2: for a range parameter other than \<open>day\<close>, \<open>week\<close>, \<open>month\<close> the snapshot is the
  one of \<open>week\<close>, \<open>avgDaily\<close> included. The \<^verbatim>\<open>switch\<close> falls back to the week
  (\<^verbatim>\<open>default: // week\<close>), but the divisor of \<open>avgDaily\<close> falls back to 30: on the same
  store, \<open>quarter\<close> and \<open>week\<close> give the same four errors of the last seven days and a
  different \<open>avgDaily\<close> (0 and 1). (Everything else but the echoed range is the same:
  lemma \<open>unsupported_range_snapshot\<close>.)
\<close>

theorem quarter_avgDaily:
  "loader ex_host ex_ok ex_db ''x.myshopify.com'' (Some ''quarter'') =
     Inr \<lparr>errors = [(1678708800000, 1), (1678870800000, 1), (1678874400000, 1),
                    (1678878000000, 1)],
          topPaths = [(''/c'', 1), (''/b'', 1), (''/a'', 2)], range' = ''quarter'',
          totalRedirects = 1, totalErrors = 4, avgDaily = 0, unfixedErrors = 3,
          topReferrers = [(Some ''https://www.google.com/'', 2), (None, 2)]\<rparr>
   \<and> loader ex_host ex_ok ex_db ''x.myshopify.com'' (Some ''week'') =
     Inr \<lparr>errors = [(1678708800000, 1), (1678870800000, 1), (1678874400000, 1),
                    (1678878000000, 1)],
          topPaths = [(''/c'', 1), (''/b'', 1), (''/a'', 2)], range' = ''week'',
          totalRedirects = 1, totalErrors = 4, avgDaily = 1, unfixedErrors = 3,
          topReferrers = [(Some ''https://www.google.com/'', 2), (None, 2)]\<rparr>"
  by code_simp

text \<open>
  Claim C3: the window \<open>[startDate, now]\<close> is exactly 1 day long for \<open>day\<close>, 7 days for
  \<open>week\<close>, 30 days for \<open>month\<close>, and 7 days for any other range. The source offers
  \<open>month\<close> as "Last 30 Days" (line 202) and divides its total by 30 (line 138), but
  \<^verbatim>\<open>startDate.setMonth(now.getMonth() - 1)\<close> (line 56) goes back one calendar month:
  on 2023-03-15 the window of \<open>month\<close> is 28 days long, while its divisor is 30.
\<close>

theorem month_window_28_days:
  "clock_now ex_host - startDate_of ex_host (range_of (Some ''month'')) = 28 * msPerDay
   \<and> clock_now ex_host - startDate_of ex_host (range_of (Some ''month'')) \<noteq> 30 * msPerDay
   \<and> divisor_of (range_of (Some ''month'')) = 30"
  by code_simp

text \<open>
  Claim C4: \<open>unfixedErrors \<le> totalErrors\<close> in every snapshot. \<open>totalErrors\<close> is summed
  from the series, whose query stops at \<open>now\<close>; the query of \<open>unfixedErrors\<close> has no upper
  bound (the defect of claim C1). With one fixed hit inside the window and two unfixed
  hits recorded after the clock reading, \<open>unfixedErrors\<close> is 2 and \<open>totalErrors\<close> is 1.
  (On a store without records later than \<open>now\<close> the inequality holds: lemma
  \<open>unfixedErrors_le_totalErrors_without_late_rows\<close>.)
\<close>

theorem unfixedErrors_exceeds_totalErrors:
  "loader ex_host ex_ok late_unfixed_db ''x.myshopify.com'' (Some ''day'') =
     Inr \<lparr>errors = [(1678878000000, 1)], topPaths = [(''/sale'', 1), (''/new'', 2)],
          range' = ''day'', totalRedirects = 0, totalErrors = 1, avgDaily = 1,
          unfixedErrors = 2, topReferrers = [(None, 3)]\<rparr>"
  by code_simp

text \<open>
  Claim C5: \<open>topPaths\<close> and \<open>topReferrers\<close> group the error events of the window by
  path (by referer), count each group, order the groups by the key, descending, and
  keep the first 5 (the first 3). The two queries have the lower bound \<open>startDate\<close>
  alone (the defect of claim C1), so they group events later than \<open>now\<close> too: with
  two hits on \<open>/a\<close> inside the window and a hit on \<open>/zz\<close> recorded half a second after
  the clock reading, \<open>topPaths\<close> and \<open>topReferrers\<close> have a group for the late hit,
  which the same grouping of the events of \<open>[startDate, now]\<close> does not have (and
  which the series of the same snapshot leaves out).
\<close>

theorem top_groups_late_rows:
  "loader ex_host ex_ok late_paths_db ''x.myshopify.com'' (Some ''day'') =
     Inr \<lparr>errors = [(1678874400000, 1), (1678878000000, 1)],
          topPaths = [(''/zz'', 1), (''/a'', 2)], range' = ''day'', totalRedirects = 0,
          totalErrors = 2, avgDaily = 2, unfixedErrors = 3,
          topReferrers = [(Some ''https://r9.example/'', 1), (Some ''https://r1.example/'', 2)]\<rparr>
   \<and> groupBy path
        (\<lambda>r. shopDomain r = ''x.myshopify.com''
              \<and> startDate_of ex_host (range_of (Some ''day'')) \<le> timestamp r
              \<and> timestamp r \<le> clock_now ex_host)
        desc (Some 5) (notFoundError late_paths_db) = [(''/a'', 2)]
   \<and> groupBy referer
        (\<lambda>r. shopDomain r = ''x.myshopify.com''
              \<and> startDate_of ex_host (range_of (Some ''day'')) \<le> timestamp r
              \<and> timestamp r \<le> clock_now ex_host)
        desc (Some 3) (notFoundError late_paths_db) = [(Some ''https://r1.example/'', 2)]"
  by code_simp

text \<open>
  Claim C6: \<open>avgDaily\<close> is \<open>totalErrors\<close> divided by the length of the window in days
  (1, 7, 30), rounded to the nearest integer, the divisor matching the window of the
  snapshot. For \<open>month\<close> the divisor is the constant 30 (line 138) while the window is
  a calendar month (line 56): on 2023-03-15 the window is 28 days long and holds 14
  errors, and \<open>avgDaily\<close> is \<open>round (14 / 30) = 0\<close>, not \<open>round (14 / 28) = 1\<close>.
\<close>

theorem avgDaily_month_window:
  "\<not> isl (loader ex_host ex_ok month_db ''x.myshopify.com'' (Some ''month''))
   \<and> totalErrors (projr (loader ex_host ex_ok month_db ''x.myshopify.com'' (Some ''month''))) = 14
   \<and> avgDaily (projr (loader ex_host ex_ok month_db ''x.myshopify.com'' (Some ''month''))) = 0
   \<and> (clock_now ex_host - startDate_of ex_host (range_of (Some ''month''))) div msPerDay = 28
   \<and> Math_round (real 14 / real_of_int 28) = 1"
  by code_simp

text \<open>
  Claim C7: \<open>totalErrors\<close> is the sum of the counts of all buckets of the error series.
\<close>

theorem totalErrors_sum:
  assumes "loader h oc d shop param = Inr s"
  shows "totalErrors s = sum_list (map snd (errors s))"
  by (simp add: loader_Inr(2) [OF assms] foldl_count_sum)

theorem totalErrors_sum_witness:
  "loader ex_host ex_ok ex_db ''x.myshopify.com'' (Some ''day'') =
     Inr \<lparr>errors = [(1678870800000, 1), (1678874400000, 1), (1678878000000, 1)],
          topPaths = [(''/b'', 1), (''/a'', 2)], range' = ''day'', totalRedirects = 1,
          totalErrors = 3, avgDaily = 3, unfixedErrors = 2,
          topReferrers = [(Some ''https://www.google.com/'', 2), (None, 1)]\<rparr>
   \<and> (3::nat) = sum_list (map snd [(1678870800000::int, 1), (1678874400000, 1), (1678878000000, 1)])"
proof -
  have e: "loader ex_host ex_ok ex_db ''x.myshopify.com'' (Some ''day'') =
     Inr \<lparr>errors = [(1678870800000, 1), (1678874400000, 1), (1678878000000, 1)],
          topPaths = [(''/b'', 1), (''/a'', 2)], range' = ''day'', totalRedirects = 1,
          totalErrors = 3, avgDaily = 3, unfixedErrors = 2,
          topReferrers = [(Some ''https://www.google.com/'', 2), (None, 1)]\<rparr>"
    by code_simp
  from totalErrors_sum [OF e] e show ?thesis by simp
qed

text \<open>
  Claim C8: the theme loader keeps every theme of the fetched list and sets its
  \<open>isActive\<close> to the value of the shop's status row with that \<open>themeId\<close> (the last such
  row, should there be several), and to \<open>False\<close> when the shop has no row for the
  theme; the function is total, a missing row raises nothing.
\<close>

theorem themes_isActive:
  assumes "i < length nodes"
  shows "length (themes d shop nodes) = length nodes
     \<and> id' (themes d shop nodes ! i) = id' (nodes ! i)
     \<and> isActive (themes d shop nodes ! i) =
         (let rows = filter (\<lambda>status. status_shopDomain status = shop
                                  \<and> themeId status = id' (nodes ! i)) (themeStatus d)
          in if rows = [] then False else status_isActive (last rows))"
proof -
  let ?ss = "filter (\<lambda>status. status_shopDomain status = shop) (themeStatus d)"
  have f: "filter (\<lambda>status. themeId status = k) ?ss
        = filter (\<lambda>status. status_shopDomain status = shop \<and> themeId status = k) (themeStatus d)"
    for k by (simp add: conj_commute)
  show ?thesis
    using assms
    by (simp add: themes_def Let_def statusMap_lookup f ThemeNode.extend_def Theme.fields_def)
qed

theorem themes_isActive_witness:
  "length (themes ex_db ''x.myshopify.com'' ex_nodes) = 2
   \<and> isActive (themes ex_db ''x.myshopify.com'' ex_nodes ! 0) = True
   \<and> isActive (themes ex_db ''x.myshopify.com'' ex_nodes ! 1) = False"
proof -
  have l: "0 < length ex_nodes" "1 < length ex_nodes" by (simp_all add: ex_nodes_def)
  from themes_isActive [OF l(1), of ex_db "''x.myshopify.com''"]
    themes_isActive [OF l(2), of ex_db "''x.myshopify.com''"]
  show ?thesis by (simp add: ex_nodes_def ex_db_def)
qed

text \<open>
  Claim C9: when none of the five queries fails the loader returns a snapshot with
  all its metrics; when a query fails the loader fails with the error of a failed
  query (of the one that failed, when it is the only one) and returns no snapshot.
\<close>

theorem loader_all_or_nothing:
  "((\<forall>q. failure oc q = None) \<longrightarrow>
      loader h oc d shop param =
        Inr \<lparr>errors = errors_query d shop (startDate_of h (range_of param)) (clock_now h),
             topPaths = topPaths_query d shop (startDate_of h (range_of param)),
             range' = range_of param,
             totalRedirects = totalRedirects_query d shop (startDate_of h (range_of param)),
             totalErrors = sum_list (map snd
                (errors_query d shop (startDate_of h (range_of param)) (clock_now h))),
             avgDaily = Math_round (real (sum_list (map snd
                (errors_query d shop (startDate_of h (range_of param)) (clock_now h))))
                  / real_of_int (divisor_of (range_of param))),
             unfixedErrors = unfixedErrors_query d shop (startDate_of h (range_of param)),
             topReferrers = topReferrers_query d shop (startDate_of h (range_of param))\<rparr>)
   \<and> (failure oc q = Some e \<longrightarrow>
        (\<exists>q' e'. failure oc q' = Some e' \<and> loader h oc d shop param = Inl e'))
   \<and> (failure oc q = Some e \<and> (\<forall>q'. q' \<noteq> q \<longrightarrow> failure oc q' = None) \<longrightarrow>
        loader h oc d shop param = Inl e)"
proof (intro conjI impI)
  assume "\<forall>q. failure oc q = None"
  then have "first_rejection oc = None" by (simp add: first_rejection_None)
  then show "loader h oc d shop param =
        Inr \<lparr>errors = errors_query d shop (startDate_of h (range_of param)) (clock_now h),
             topPaths = topPaths_query d shop (startDate_of h (range_of param)),
             range' = range_of param,
             totalRedirects = totalRedirects_query d shop (startDate_of h (range_of param)),
             totalErrors = sum_list (map snd
                (errors_query d shop (startDate_of h (range_of param)) (clock_now h))),
             avgDaily = Math_round (real (sum_list (map snd
                (errors_query d shop (startDate_of h (range_of param)) (clock_now h))))
                  / real_of_int (divisor_of (range_of param))),
             unfixedErrors = unfixedErrors_query d shop (startDate_of h (range_of param)),
             topReferrers = topReferrers_query d shop (startDate_of h (range_of param))\<rparr>"
    by (simp add: loader_def Let_def foldl_count_sum)
next
  assume f: "failure oc q = Some e"
  then have "first_rejection oc \<noteq> None" by (auto simp: first_rejection_None)
  then obtain e' where e': "first_rejection oc = Some e'" by auto
  from first_rejection_Some [OF e'] e'
  show "\<exists>q' e'. failure oc q' = Some e' \<and> loader h oc d shop param = Inl e'"
    by (auto simp: loader_Inl)
next
  assume a: "failure oc q = Some e \<and> (\<forall>q'. q' \<noteq> q \<longrightarrow> failure oc q' = None)"
  then have "first_rejection oc \<noteq> None" by (auto simp: first_rejection_None)
  then obtain e' where e': "first_rejection oc = Some e'" by auto
  from first_rejection_Some [OF e'] obtain q' where "failure oc q' = Some e'" by blast
  with a have "e' = e" by (cases "q' = q") auto
  with e' show "loader h oc d shop param = Inl e" by (simp add: loader_Inl)
qed

theorem loader_all_or_nothing_witness:
  "loader ex_host ex_ok ex_db ''x.myshopify.com'' (Some ''day'') =
     Inr \<lparr>errors = [(1678870800000, 1), (1678874400000, 1), (1678878000000, 1)],
          topPaths = [(''/b'', 1), (''/a'', 2)], range' = ''day'', totalRedirects = 1,
          totalErrors = 3, avgDaily = 3, unfixedErrors = 2,
          topReferrers = [(Some ''https://www.google.com/'', 2), (None, 1)]\<rparr>
   \<and> loader ex_host ex_fail ex_db ''x.myshopify.com'' (Some ''day'') = Inl (PrismaError ''P1001'')"
proof -
  have ok: "\<forall>q. failure ex_ok q = None" by (simp add: ex_ok_def)
  have bad: "failure ex_fail TopPaths = Some (PrismaError ''P1001'')
      \<and> (\<forall>q'. q' \<noteq> TopPaths \<longrightarrow> failure ex_fail q' = None)"
    by (simp add: ex_fail_def)
  have v: "\<lparr>errors = errors_query ex_db ''x.myshopify.com''
               (startDate_of ex_host (range_of (Some ''day''))) (clock_now ex_host),
           topPaths = topPaths_query ex_db ''x.myshopify.com''
               (startDate_of ex_host (range_of (Some ''day''))),
           range' = range_of (Some ''day''),
           totalRedirects = totalRedirects_query ex_db ''x.myshopify.com''
               (startDate_of ex_host (range_of (Some ''day''))),
           totalErrors = sum_list (map snd (errors_query ex_db ''x.myshopify.com''
               (startDate_of ex_host (range_of (Some ''day''))) (clock_now ex_host))),
           avgDaily = Math_round (real (sum_list (map snd (errors_query ex_db ''x.myshopify.com''
               (startDate_of ex_host (range_of (Some ''day''))) (clock_now ex_host))))
                 / real_of_int (divisor_of (range_of (Some ''day'')))),
           unfixedErrors = unfixedErrors_query ex_db ''x.myshopify.com''
               (startDate_of ex_host (range_of (Some ''day''))),
           topReferrers = topReferrers_query ex_db ''x.myshopify.com''
               (startDate_of ex_host (range_of (Some ''day'')))\<rparr>
      = \<lparr>errors = [(1678870800000, 1), (1678874400000, 1), (1678878000000, 1)],
          topPaths = [(''/b'', 1), (''/a'', 2)], range' = ''day'', totalRedirects = 1,
          totalErrors = 3, avgDaily = 3, unfixedErrors = 2,
          topReferrers = [(Some ''https://www.google.com/'', 2), (None, 1)]\<rparr>"
    by code_simp
  from loader_all_or_nothing [where oc = ex_ok and h = ex_host and d = ex_db
      and shop = "''x.myshopify.com''" and param = "Some ''day''"] ok
  have a: "loader ex_host ex_ok ex_db ''x.myshopify.com'' (Some ''day'') =
     Inr \<lparr>errors = [(1678870800000, 1), (1678874400000, 1), (1678878000000, 1)],
          topPaths = [(''/b'', 1), (''/a'', 2)], range' = ''day'', totalRedirects = 1,
          totalErrors = 3, avgDaily = 3, unfixedErrors = 2,
          topReferrers = [(Some ''https://www.google.com/'', 2), (None, 1)]\<rparr>"
    unfolding v by blast
  from loader_all_or_nothing [where oc = ex_fail and q = TopPaths and e = "PrismaError ''P1001''"
      and h = ex_host and d = ex_db and shop = "''x.myshopify.com''" and param = "Some ''day''"] bad
  have b: "loader ex_host ex_fail ex_db ''x.myshopify.com'' (Some ''day'') = Inl (PrismaError ''P1001'')"
    by blast
  from a b show ?thesis by simp
qed

text \<open>
  Claim C10: the merged list is the fetched list, in its order and of its length,
  with \<open>id\<close>, \<open>name\<close> and \<open>role\<close> of every theme unchanged; only \<open>isActive\<close> is added
  (taking \<open>isActive\<close> away again gives the fetched list back).
\<close>

theorem themes_frame:
  "map ThemeNode.truncate (themes d shop nodes) = nodes
   \<and> length (themes d shop nodes) = length nodes
   \<and> map id' (themes d shop nodes) = map id' nodes
   \<and> map name (themes d shop nodes) = map name nodes
   \<and> map role (themes d shop nodes) = map role nodes"
  by (simp add: themes_def Let_def comp_def truncate_extend)
    (simp add: ThemeNode.extend_def Theme.fields_def)

end
